theory Spec2Isabelle
  imports Main
begin

section \<open>Bad block range processor: the arithmetic core of \<open>main.py\<close>\<close>

text \<open>
  Python's unbounded \<open>int\<close> is HOL's \<open>int\<close>. A Python list is a HOL list. The
  functions keep the names they have in \<open>main.py\<close>.
\<close>

subsection \<open>\<open>invert_blocks\<close>\<close>

text \<open>
  \<^verbatim>\<open>
  def invert_blocks(good_blocks, total_blocks):
      good_set = set(good_blocks)
      return [b for b in range(total_blocks) if b not in good_set]
  \<close>
  \<open>range(total_blocks)\<close> counts \<open>0, 1, ..., total_blocks - 1\<close> and is empty when
  \<open>total_blocks \<le> 0\<close>; so is the interval list \<open>[0..total_blocks - 1]\<close>.
\<close>

definition invert_blocks :: "int list \<Rightarrow> int \<Rightarrow> int list" where
  "invert_blocks good_blocks total_blocks =
     (let good_set = set good_blocks
      in filter (\<lambda>b. b \<notin> good_set) [0..total_blocks - 1])"

subsection \<open>\<open>block_to_sector\<close> and the sector ranges of \<open>main\<close>\<close>

text \<open>
  \<^verbatim>\<open>
  def block_to_sector(block, sectors_per_block):
      return block * sectors_per_block
  \<close>
\<close>

definition block_to_sector :: "int \<Rightarrow> int \<Rightarrow> int" where
  "block_to_sector block sectors_per_block = block * sectors_per_block"

text \<open>
  The body of the loop of \<open>main\<close> that fills \<open>sector_ranges\<close>:
  \<^verbatim>\<open>
  for block in bad_blocks:
      sector_start = block_to_sector(block, sectors_per_block)
      sector_end = block_to_sector(block + 1, sectors_per_block) - 1
      sector_ranges.append((sector_start, sector_end))
  \<close>
\<close>

definition sector_range :: "int \<Rightarrow> int \<Rightarrow> int \<times> int" where
  "sector_range block sectors_per_block =
     (let sector_start = block_to_sector block sectors_per_block;
          sector_end = block_to_sector (block + 1) sectors_per_block - 1
      in (sector_start, sector_end))"

definition sector_ranges :: "int list \<Rightarrow> int \<Rightarrow> (int \<times> int) list" where
  "sector_ranges bad_blocks sectors_per_block =
     map (\<lambda>block. sector_range block sectors_per_block) bad_blocks"

subsection \<open>Text\<close>

text \<open>
  A Python \<open>str\<close> is a sequence of code points. The model covers the texts whose code
  points are below 256: one \<open>char\<close> per code point, \<open>of_char\<close> giving its number.
  On these, the Unicode classes used by \<open>str.strip\<close>, \<open>str.split\<close>,
  \<open>str.isdigit\<close> and \<open>int\<close> are:
  \<^item> white space (\<open>str.isspace\<close>): U+0009 to U+000D, U+001C to U+0020, U+0085, U+00A0;
  \<^item> decimal digits (what \<open>int\<close> reads): \<open>0\<close> to \<open>9\<close>;
  \<^item> digits (\<open>str.isdigit\<close>): the decimal digits and the superscripts U+00B2, U+00B3
    and U+00B9.
\<close>

datatype py_error = ValueError | ZeroDivisionError | OverflowError | EOFError

definition isspace_char :: "char \<Rightarrow> bool" where
  "isspace_char c =
     (let n = of_char c :: nat
      in (9 \<le> n \<and> n \<le> 13) \<or> (28 \<le> n \<and> n \<le> 32) \<or> n = 133 \<or> n = 160)"

definition isdecimal_char :: "char \<Rightarrow> bool" where
  "isdecimal_char c = (let n = of_char c :: nat in 48 \<le> n \<and> n \<le> 57)"

definition isdigit_char :: "char \<Rightarrow> bool" where
  "isdigit_char c =
     (let n = of_char c :: nat in (48 \<le> n \<and> n \<le> 57) \<or> n = 178 \<or> n = 179 \<or> n = 185)"

text \<open>\<open>s.isdigit()\<close>: every character is a digit and there is at least one.\<close>

definition isdigit :: "string \<Rightarrow> bool" where
  "isdigit s = (s \<noteq> [] \<and> list_all isdigit_char s)"

text \<open>\<open>s.strip()\<close>: leading and trailing white space removed.\<close>

definition strip :: "string \<Rightarrow> string" where
  "strip s = rev (dropWhile isspace_char (rev (dropWhile isspace_char s)))"

text \<open>
  \<open>s.split('\n')\<close>: the pieces between line feeds; one more piece than there are line
  feeds, so never an empty list.
\<close>

fun split_newline :: "string \<Rightarrow> string list" where
  "split_newline [] = [[]]"
| "split_newline (c # cs) =
     (if c = CHR 0x0A then [] # split_newline cs
      else (case split_newline cs of
              [] \<Rightarrow> [[c]]
            | piece # pieces \<Rightarrow> (c # piece) # pieces))"

text \<open>
  \<open>s.split()\<close>: the maximal runs of characters that are not white space, in order; no
  empty piece.
\<close>

function split_whitespace :: "string \<Rightarrow> string list" where
  "split_whitespace [] = []"
| "split_whitespace (c # cs) =
     (if isspace_char c then split_whitespace cs
      else (c # takeWhile (\<lambda>x. \<not> isspace_char x) cs)
             # split_whitespace (dropWhile (\<lambda>x. \<not> isspace_char x) cs))"
  by pat_completeness auto
termination
  by (relation "measure length") (auto simp: less_Suc_eq_le length_dropWhile_le)

text \<open>\<open>'\n'.join(lines)\<close>.\<close>

fun join_newline :: "string list \<Rightarrow> string" where
  "join_newline [] = []"
| "join_newline [l] = l"
| "join_newline (l # ls) = l @ CHR 0x0A # join_newline ls"

subsection \<open>\<open>int(s)\<close> and \<open>str(n)\<close>\<close>

text \<open>
  \<open>int(s)\<close> in base 10: white space around the literal is dropped; an optional sign;
  then decimal digits, where single underscores may stand between digits. Anything else
  raises \<open>ValueError\<close>. The white space that \<open>int\<close> drops is U+0009 to U+000D,
  U+0020, U+0085 and U+00A0: of \<open>str.isspace\<close>, U+001C to U+001F are not dropped.

  The interpreter limits the conversions between \<open>int\<close> and \<open>str\<close>: by default
  (\<open>sys.int_info.default_max_str_digits\<close>) to 4300 digits. \<open>int(s)\<close> raises
  \<open>ValueError\<close> when the literal has more than 4300 digit characters (leading zeros
  count, the sign and underscores do not), and \<open>str(n)\<close> raises \<open>ValueError\<close> when
  \<open>n\<close> has more than 4300 decimal digits.
\<close>

definition max_str_digits :: nat where
  "max_str_digits = 4300"

definition int_space_char :: "char \<Rightarrow> bool" where
  "int_space_char c =
     (let n = of_char c :: nat
      in (9 \<le> n \<and> n \<le> 13) \<or> n = 32 \<or> n = 133 \<or> n = 160)"

definition digit_value :: "char \<Rightarrow> nat" where
  "digit_value c = of_char c - 48"

fun int_digits :: "nat \<Rightarrow> bool \<Rightarrow> string \<Rightarrow> nat option" where
  "int_digits acc after_digit [] = (if after_digit then Some acc else None)"
| "int_digits acc after_digit (c # cs) =
     (if isdecimal_char c then int_digits (acc * 10 + digit_value c) True cs
      else if c = CHR ''_'' \<and> after_digit then int_digits acc False cs
      else None)"

definition int_literal :: "string \<Rightarrow> py_error + nat" where
  "int_literal ds =
     (case int_digits 0 False ds of
        None \<Rightarrow> Inl ValueError
      | Some n \<Rightarrow>
          if max_str_digits < length (filter isdecimal_char ds) then Inl ValueError
          else Inr n)"

definition py_int :: "string \<Rightarrow> py_error + int" where
  "py_int s =
     (case rev (dropWhile int_space_char (rev (dropWhile int_space_char s))) of
        [] \<Rightarrow> Inl ValueError
      | c # cs \<Rightarrow>
          if c = CHR ''-'' then
            (case int_literal cs of
               Inl e \<Rightarrow> Inl e
             | Inr n \<Rightarrow> Inr (- int n))
          else if c = CHR ''+'' then
            (case int_literal cs of
               Inl e \<Rightarrow> Inl e
             | Inr n \<Rightarrow> Inr (int n))
          else
            (case int_literal (c # cs) of
               Inl e \<Rightarrow> Inl e
             | Inr n \<Rightarrow> Inr (int n)))"

text \<open>
  \<open>str(n)\<close>, which is also what \<open>f"{n}"\<close> writes: the decimal digits of \<open>n\<close> without
  leading zeros, after a minus sign when \<open>n\<close> is negative; \<open>ValueError\<close> when there
  are more than \<open>max_str_digits\<close> digits. \<open>str_nat\<close> gives the digits of a natural
  number, and \<open>str_ok n\<close> says that \<open>n\<close> is within the limit.
\<close>

definition digit_char :: "nat \<Rightarrow> char" where
  "digit_char d = ''0123456789'' ! d"

fun str_nat :: "nat \<Rightarrow> string" where
  "str_nat n = (if n < 10 then [digit_char n] else str_nat (n div 10) @ [digit_char (n mod 10)])"

definition str_ok :: "int \<Rightarrow> bool" where
  "str_ok n = (length (str_nat (nat \<bar>n\<bar>)) \<le> max_str_digits)"

definition str_int :: "int \<Rightarrow> py_error + string" where
  "str_int n =
     (if str_ok n
      then Inr (if n < 0 then CHR ''-'' # str_nat (nat \<bar>n\<bar>) else str_nat (nat \<bar>n\<bar>))
      else Inl ValueError)"

subsection \<open>\<open>parse_blocks\<close>\<close>

text \<open>
  \<^verbatim>\<open>
  def parse_blocks(data):
      blocks = []
      for line in data.strip().split('\n'):
          parts = line.split()
          if parts and parts[0].isdigit():
              blocks.append(int(parts[0]))
      return sorted(set(blocks))
  \<close>
  The loop is \<open>parse_lines\<close>, with \<open>blocks\<close> as its accumulator. \<open>int\<close> can raise,
  and then so does \<open>parse_blocks\<close>.
\<close>

fun parse_lines :: "int list \<Rightarrow> string list \<Rightarrow> py_error + int list" where
  "parse_lines blocks [] = Inr blocks"
| "parse_lines blocks (line # rest) =
     (case split_whitespace line of
        [] \<Rightarrow> parse_lines blocks rest
      | part # _ \<Rightarrow>
          if isdigit part then
            (case py_int part of
               Inl e \<Rightarrow> Inl e
             | Inr n \<Rightarrow> parse_lines (blocks @ [n]) rest)
          else parse_lines blocks rest)"

definition parse_blocks :: "string \<Rightarrow> py_error + int list" where
  "parse_blocks data =
     (case parse_lines [] (split_newline (strip data)) of
        Inl e \<Rightarrow> Inl e
      | Inr blocks \<Rightarrow> Inr (sorted_list_of_set (set blocks)))"

subsection \<open>\<open>create_ranges\<close>\<close>

text \<open>
  \<^verbatim>\<open>
  def create_ranges(blocks):
      if not blocks:
          return []
      ranges = []
      start = end = blocks[0]
      for block in blocks[1:]:
          if block == end + 1:
              end = block
          else:
              ranges.append(f"{start}-{end}" if start != end else str(start))
              start = end = block
      ranges.append(f"{start}-{end}" if start != end else str(start))
      return ranges
  \<close>
  \<open>format_range\<close> is the expression that is appended, \<open>create_ranges_loop\<close> the loop
  with its three variables and the statement after it. The conversions of \<open>start\<close> and
  \<open>end\<close> to text can raise, and then so does \<open>create_ranges\<close>.
\<close>

definition format_range :: "int \<Rightarrow> int \<Rightarrow> py_error + string" where
  "format_range start end' =
     (if start \<noteq> end' then
        (case str_int start of
           Inl e \<Rightarrow> Inl e
         | Inr s \<Rightarrow>
             (case str_int end' of
                Inl e \<Rightarrow> Inl e
              | Inr t \<Rightarrow> Inr (s @ ''-'' @ t)))
      else str_int start)"

fun create_ranges_loop ::
  "string list \<Rightarrow> int \<Rightarrow> int \<Rightarrow> int list \<Rightarrow> py_error + string list" where
  "create_ranges_loop ranges start end' [] =
     (case format_range start end' of
        Inl e \<Rightarrow> Inl e
      | Inr r \<Rightarrow> Inr (ranges @ [r]))"
| "create_ranges_loop ranges start end' (block # rest) =
     (if block = end' + 1 then create_ranges_loop ranges start block rest
      else
        (case format_range start end' of
           Inl e \<Rightarrow> Inl e
         | Inr r \<Rightarrow> create_ranges_loop (ranges @ [r]) block block rest))"

definition create_ranges :: "int list \<Rightarrow> py_error + string list" where
  "create_ranges blocks =
     (case blocks of
        [] \<Rightarrow> Inr []
      | first # rest \<Rightarrow> create_ranges_loop [] first first rest)"

subsection \<open>\<open>main\<close>, up to the first two output files\<close>

text \<open>
  \<open>main\<close> reads its input with \<open>input()\<close>, line by line: the total number of
  sectors, the total number of blocks, then the pasted report until the end of input.
  The model takes the lines of standard input as a list and returns how the run ends:
  with an exception, with one of the three messages after which \<open>main\<close> returns, or
  by reaching the code that writes \<open>ntfsmarkbad_sectors.txt\<close> (one line
  \<open>"start end"\<close> for each pair of \<open>sector_ranges\<close>) and \<open>bad_block_ranges.txt\<close>
  (\<open>bad_ranges\<close> joined by commas). What \<open>main\<close> does after these two files (a further
  prompt, three more files of fixed text) is not part of the model.

  The \<open>print\<close> calls are left out, but not the exceptions of the float arithmetic in
  them: converting an \<open>int\<close> to a float, and dividing two \<open>int\<close>s with \<open>/\<close>, raise
  \<open>OverflowError\<close> when the result, rounded to a double, would reach \<open>2 ^ 1024\<close>.
  The integers that the \<open>print\<close> calls write are within the limit of \<open>str\<close>: the
  two totals come from \<open>int\<close>, which has the same limit; \<open>sectors_per_block\<close> is
  not larger in absolute value than \<open>total_sectors\<close> or 1; \<open>bad_sectors_count\<close> is
  written after the float arithmetic on it has passed; the other integers are lengths of
  lists, not longer than \<open>total_blocks\<close>. The sector numbers written to
  \<open>ntfsmarkbad_sectors.txt\<close> have no such bound, so their conversion is in the model
  (\<open>write_sector_lines\<close>).
\<close>

datatype outcome =
    Raised py_error
  | TotalSectorsRequired
  | NoValidBlocks
  | NoBadBlocks
  | FilesWritten "(int \<times> int) list" "string list"

definition float_overflows :: "int \<Rightarrow> bool" where
  "float_overflows x = (2 ^ 1024 - 2 ^ 970 \<le> \<bar>x\<bar>)"

definition true_div_overflows :: "int \<Rightarrow> int \<Rightarrow> bool" where
  "true_div_overflows a b = ((2 ^ 1024 - 2 ^ 970) * \<bar>b\<bar> \<le> \<bar>a\<bar>)"

text \<open>
  The lines of \<open>ntfsmarkbad_sectors.txt\<close>:
  \<^verbatim>\<open>
  for start, end in sector_ranges:
      f.write(f"{start} {end}\n")
  \<close>
\<close>

fun write_sector_lines :: "(int \<times> int) list \<Rightarrow> py_error + string list" where
  "write_sector_lines [] = Inr []"
| "write_sector_lines ((start, end') # rest) =
     (case str_int start of
        Inl e \<Rightarrow> Inl e
      | Inr s \<Rightarrow>
          (case str_int end' of
             Inl e \<Rightarrow> Inl e
           | Inr t \<Rightarrow>
               (case write_sector_lines rest of
                  Inl e \<Rightarrow> Inl e
                | Inr written \<Rightarrow> Inr ((s @ '' '' @ t @ [CHR 0x0A]) # written))))"

text \<open>
  From \<open>sectors_per_block = total_sectors // total_blocks\<close> (line 68) to the two files
  (line 154):
  \<^verbatim>\<open>
  sectors_per_block = total_sectors // total_blocks
  print(f"... ({total_sectors * 512 / 1e9:.2f} GB)")
  print(f"... ({sectors_per_block * 512 / 1024 / 1024:.2f} MB)")
  ...
  data = '\n'.join(lines)
  good_blocks = parse_blocks(data)
  if not good_blocks:
      print("ERROR: No valid blocks found in input!")
      return
  bad_blocks = invert_blocks(good_blocks, total_blocks)
  if not bad_blocks:
      print("SUCCESS: No bad blocks found!")
      return
  bad_sectors_count = len(bad_blocks) * sectors_per_block
  bad_space_mb = bad_sectors_count * 512 / 1024 / 1024
  ...
  bad_ranges = create_ranges(bad_blocks)
  sector_ranges = []
  for block in bad_blocks: ...
  with open('ntfsmarkbad_sectors.txt', 'w') as f: ...
  with open('bad_block_ranges.txt', 'w') as f: ...
  \<close>
  \<open>//\<close> on \<open>int\<close> rounds down, as \<open>div\<close> does, and raises on a zero divisor.
\<close>

definition main_body :: "int \<Rightarrow> int \<Rightarrow> string list \<Rightarrow> outcome" where
  "main_body total_sectors total_blocks lines =
     (if total_blocks = 0 then Raised ZeroDivisionError
      else
        let sectors_per_block = total_sectors div total_blocks in
        if float_overflows (total_sectors * 512) then Raised OverflowError
        else if true_div_overflows (sectors_per_block * 512) 1024 then Raised OverflowError
        else
          let data = join_newline lines in
          (case parse_blocks data of
             Inl e \<Rightarrow> Raised e
           | Inr good_blocks \<Rightarrow>
               if good_blocks = [] then NoValidBlocks
               else
                 let bad_blocks = invert_blocks good_blocks total_blocks in
                 if bad_blocks = [] then NoBadBlocks
                 else
                   let bad_sectors_count = int (length bad_blocks) * sectors_per_block in
                   if true_div_overflows (bad_sectors_count * 512) 1024
                   then Raised OverflowError
                   else
                     (case create_ranges bad_blocks of
                        Inl e \<Rightarrow> Raised e
                      | Inr bad_ranges \<Rightarrow>
                          (case write_sector_lines
                                  (sector_ranges bad_blocks sectors_per_block) of
                             Inl e \<Rightarrow> Raised e
                           | Inr written \<Rightarrow>
                               FilesWritten (sector_ranges bad_blocks sectors_per_block)
                                 bad_ranges))))"

text \<open>
  The two prompts (lines 58 to 65):
  \<^verbatim>\<open>
  total_sectors_input = input("Enter total drive sectors ...").strip()
  if not total_sectors_input:
      print("ERROR: Total sectors required!")
      return
  total_sectors = int(total_sectors_input)
  total_blocks_input = input("Enter total HDSentinel blocks ...").strip()
  total_blocks = int(total_blocks_input) if total_blocks_input else 10000
  \<close>
  \<open>input()\<close> raises \<open>EOFError\<close> when there is no line left.
\<close>

definition main :: "string list \<Rightarrow> outcome" where
  "main stdin =
     (case stdin of
        [] \<Rightarrow> Raised EOFError
      | line1 # after1 \<Rightarrow>
          let total_sectors_input = strip line1 in
          if total_sectors_input = [] then TotalSectorsRequired
          else
            (case py_int total_sectors_input of
               Inl e \<Rightarrow> Raised e
             | Inr total_sectors \<Rightarrow>
                 (case after1 of
                    [] \<Rightarrow> Raised EOFError
                  | line2 # lines \<Rightarrow>
                      let total_blocks_input = strip line2 in
                      (case (if total_blocks_input = [] then Inr 10000
                             else py_int total_blocks_input) of
                         Inl e \<Rightarrow> Raised e
                       | Inr total_blocks \<Rightarrow> main_body total_sectors total_blocks lines))))"

subsection \<open>Reading a rendered range back\<close>

text \<open>
  \<open>create_ranges\<close> returns text. To speak of the interval a text stands for, and of the
  integers it expands to, the text is read back: \<open>read_int\<close> reads a decimal number
  with an optional minus sign from the front of a text, \<open>parse_range\<close> reads a single
  number \<open>n\<close> as the interval from \<open>n\<close> to \<open>n\<close> and \<open>start-end\<close> as the interval from
  \<open>start\<close> to \<open>end\<close>, and \<open>expand_ranges\<close> lists the integers of each interval in
  turn. None of this is in \<open>main.py\<close>; it is the reader the properties of
  \<open>create_ranges\<close> are stated with.
\<close>

definition decimal_value :: "string \<Rightarrow> nat" where
  "decimal_value ds = foldl (\<lambda>acc c. acc * 10 + digit_value c) 0 ds"

definition read_nat :: "string \<Rightarrow> (nat \<times> string) option" where
  "read_nat s =
     (if takeWhile isdecimal_char s = [] then None
      else Some (decimal_value (takeWhile isdecimal_char s), dropWhile isdecimal_char s))"

definition read_int :: "string \<Rightarrow> (int \<times> string) option" where
  "read_int s =
     (case s of
        [] \<Rightarrow> None
      | c # cs \<Rightarrow>
          if c = CHR ''-'' then
            (case read_nat cs of
               None \<Rightarrow> None
             | Some (n, rest) \<Rightarrow> Some (- int n, rest))
          else
            (case read_nat s of
               None \<Rightarrow> None
             | Some (n, rest) \<Rightarrow> Some (int n, rest)))"

definition parse_range :: "string \<Rightarrow> (int \<times> int) option" where
  "parse_range s =
     (case read_int s of
        None \<Rightarrow> None
      | Some (start, rest) \<Rightarrow>
          (case rest of
             [] \<Rightarrow> Some (start, start)
           | c # rest' \<Rightarrow>
               if c = CHR ''-'' then
                 (case read_int rest' of
                    None \<Rightarrow> None
                  | Some (end', rest'') \<Rightarrow> if rest'' = [] then Some (start, end') else None)
               else None))"

fun expand_ranges :: "string list \<Rightarrow> int list option" where
  "expand_ranges [] = Some []"
| "expand_ranges (r # rs) =
     (case parse_range r of
        None \<Rightarrow> None
      | Some (start, end') \<Rightarrow>
          (case expand_ranges rs of
             None \<Rightarrow> None
           | Some xs \<Rightarrow> Some ([start..end'] @ xs)))"

text \<open>
  Auxiliary functions of the proofs: the text of an integer and of a range with no
  limit on the digits (\<open>str_int\<close> and \<open>format_range\<close> return these texts when they
  return, by \<open>str_int_eq\<close> and \<open>format_range_eq\<close> below), and the loop of
  \<open>create_ranges\<close> once more, with the pair \<open>(start, end)\<close> in place of its text
  (tied to the loop by \<open>create_ranges_loop_pairs\<close> below).
\<close>

definition decimal_text :: "int \<Rightarrow> string" where
  "decimal_text n = (if n < 0 then CHR ''-'' # str_nat (nat \<bar>n\<bar>) else str_nat (nat \<bar>n\<bar>))"

definition range_text :: "int \<Rightarrow> int \<Rightarrow> string" where
  "range_text start end' =
     (if start \<noteq> end' then decimal_text start @ ''-'' @ decimal_text end'
      else decimal_text start)"

fun range_pairs_loop :: "int \<Rightarrow> int \<Rightarrow> int list \<Rightarrow> (int \<times> int) list" where
  "range_pairs_loop start end' [] = [(start, end')]"
| "range_pairs_loop start end' (block # rest) =
     (if block = end' + 1 then range_pairs_loop start block rest
      else (start, end') # range_pairs_loop block block rest)"

section \<open>Properties\<close>

subsection \<open>Inversion\<close>

lemma set_invert_blocks:
  "set (invert_blocks good total_blocks) = {0..<total_blocks} - set good"
  by (auto simp: invert_blocks_def)

lemma strictly_ascending_invert_blocks:
  "sorted_wrt (<) (invert_blocks good total_blocks)"
proof -
  have "sorted_wrt (<) [0..total_blocks - 1]"
    by (rule sorted_wrt_upto)
  then show ?thesis
    unfolding invert_blocks_def Let_def by (rule sorted_wrt_filter)
qed

lemma invert_blocks_restrict:
  "invert_blocks good total_blocks
     = invert_blocks (filter (\<lambda>g. 0 \<le> g \<and> g < total_blocks) good) total_blocks"
  unfolding invert_blocks_def Let_def
  by (rule filter_cong) auto

text \<open>
  C1. For \<open>total_blocks > 0\<close> and any list \<open>good\<close>, \<open>invert_blocks good total_blocks\<close>
  holds exactly the integers of \<open>{0, ..., total_blocks - 1}\<close> that are not in \<open>good\<close>,
  strictly ascending (hence without duplicates); the result and the good values inside
  the universe are disjoint, and together they are the whole universe.
\<close>

theorem invert_blocks_complement:
  assumes "0 < total_blocks"
  shows "set (invert_blocks good total_blocks) = {0..<total_blocks} - set good
    \<and> sorted_wrt (<) (invert_blocks good total_blocks)
    \<and> distinct (invert_blocks good total_blocks)
    \<and> set (invert_blocks good total_blocks) \<inter> (set good \<inter> {0..<total_blocks}) = {}
    \<and> set (invert_blocks good total_blocks) \<union> (set good \<inter> {0..<total_blocks})
          = {0..<total_blocks}"
proof -
  have asc: "sorted_wrt (<) (invert_blocks good total_blocks)"
    by (rule strictly_ascending_invert_blocks)
  then have "distinct (invert_blocks good total_blocks)"
    using strict_sorted_iff by blast
  moreover have "({0..<total_blocks} - set good) \<inter> (set good \<inter> {0..<total_blocks}) = {}"
    by blast
  moreover have "({0..<total_blocks} - set good) \<union> (set good \<inter> {0..<total_blocks})
      = {0..<total_blocks}"
    by blast
  ultimately show ?thesis
    using asc by (simp only: set_invert_blocks simp_thms)
qed

theorem invert_blocks_complement_witness:
  "(0::int) < 4
    \<and> set (invert_blocks [2, 7, 2] 4) = {0..<4} - set [2, 7, 2]
    \<and> sorted_wrt (<) (invert_blocks [2, 7, 2] 4)
    \<and> distinct (invert_blocks [2, 7, 2] 4)
    \<and> set (invert_blocks [2, 7, 2] 4) \<inter> (set [2, 7, 2] \<inter> {0..<4}) = {}
    \<and> set (invert_blocks [2, 7, 2] 4) \<union> (set [2, 7, 2] \<inter> {0..<4}) = {0..<4}
    \<and> invert_blocks [2, 7, 2] 4 = [0, 1, 3]"
proof -
  have h: "(0::int) < 4" by simp
  have v: "invert_blocks [2, 7, 2] 4 = [0, 1, 3]"
    by code_simp
  from h v invert_blocks_complement [OF h, of "[2, 7, 2]"] show ?thesis
    by blast
qed

text \<open>
  C7. For \<open>total_blocks > 0\<close>, the values of \<open>good\<close> outside the universe do not count:
  the result is the same when \<open>good\<close> is first cut down to \<open>[0, total_blocks)\<close>, and the
  same when only the values \<open>\<ge> total_blocks\<close> are dropped. \<open>invert_blocks\<close> has no
  failing branch.
\<close>

theorem invert_blocks_ignores_out_of_range:
  assumes "0 < total_blocks"
  shows "invert_blocks good total_blocks
           = invert_blocks (filter (\<lambda>g. 0 \<le> g \<and> g < total_blocks) good) total_blocks
    \<and> invert_blocks good total_blocks
           = invert_blocks (filter (\<lambda>g. g < total_blocks) good) total_blocks"
proof -
  have "invert_blocks good total_blocks
          = invert_blocks (filter (\<lambda>g. g < total_blocks) good) total_blocks"
    unfolding invert_blocks_def Let_def
    by (rule filter_cong) auto
  then show ?thesis using invert_blocks_restrict by simp
qed

theorem invert_blocks_ignores_out_of_range_witness:
  "(0::int) < 5
    \<and> invert_blocks [1, 9, 5, 3, -2] 5 = [0, 2, 4]
    \<and> filter (\<lambda>g. 0 \<le> g \<and> g < 5) [1, 9, 5, 3, -2 :: int] = [1, 3]
    \<and> invert_blocks [1, 3] 5 = [0, 2, 4]"
proof -
  have h: "(0::int) < 5" by simp
  have f: "filter (\<lambda>g. 0 \<le> g \<and> g < 5) [1, 9, 5, 3, -2 :: int] = [1, 3]" by simp
  have v: "invert_blocks [1, 3] 5 = [0, 2, 4]" by code_simp
  from h f v invert_blocks_ignores_out_of_range [OF h, of "[1, 9, 5, 3, -2]"] show ?thesis
    by simp
qed

text \<open>
  C9. For \<open>total_blocks \<le> 0\<close> the universe \<open>range(total_blocks)\<close> is empty, and
  \<open>invert_blocks\<close> returns the empty list whatever \<open>good\<close> is.
\<close>

theorem invert_blocks_nonpositive_total:
  assumes "total_blocks \<le> 0"
  shows "invert_blocks good total_blocks = []"
  using assms by (simp add: invert_blocks_def)

theorem invert_blocks_nonpositive_total_witness:
  "(-3::int) \<le> 0 \<and> invert_blocks [0, 1, -5] (-3) = [] \<and> invert_blocks [4] 0 = []"
proof -
  have h: "(-3::int) \<le> 0" by simp
  have z: "(0::int) \<le> 0" by simp
  from h invert_blocks_nonpositive_total [OF h, of "[0, 1, -5]"]
    invert_blocks_nonpositive_total [OF z, of "[4]"]
  show ?thesis by simp
qed

subsection \<open>Sector ranges\<close>

lemma sector_ranges_nth:
  "i < length bad_blocks \<Longrightarrow>
     sector_ranges bad_blocks s ! i = sector_range (bad_blocks ! i) s"
  by (simp add: sector_ranges_def)

text \<open>
  C3. For a block \<open>b\<close> and \<open>s > 0\<close> sectors per block, the sector range starts at
  \<open>b * s\<close> and ends at \<open>(b + 1) * s - 1\<close>, so it is not empty; the range of block
  \<open>b + 1\<close> starts right after the end of the range of block \<open>b\<close>. The last conjunct is
  the loop of \<open>main\<close> on two consecutive blocks.
\<close>

theorem sector_range_exact:
  assumes "0 < s"
  shows "fst (sector_range b s) = b * s
    \<and> snd (sector_range b s) = (b + 1) * s - 1
    \<and> fst (sector_range b s) \<le> snd (sector_range b s)
    \<and> snd (sector_range b s) + 1 = fst (sector_range (b + 1) s)
    \<and> sector_ranges [b, b + 1] s = [(b * s, (b + 1) * s - 1), ((b + 1) * s, (b + 2) * s - 1)]"
  using assms
  by (simp add: sector_ranges_def sector_range_def block_to_sector_def algebra_simps)

theorem sector_range_exact_witness:
  "(0::int) < 100
    \<and> sector_range 3 100 = (300, 399)
    \<and> sector_range 4 100 = (400, 499)
    \<and> sector_ranges [3, 3 + 1] 100 = [(3 * 100, (3 + 1) * 100 - 1), ((3 + 1) * 100, (3 + 2) * 100 - 1)]"
proof -
  have h: "(0::int) < 100" by simp
  have v: "sector_range 3 100 = (300, 399)" "sector_range 4 100 = (400, 499)"
    by (simp_all add: sector_range_def block_to_sector_def)
  from h v sector_range_exact [OF h, of 3] show ?thesis
    by simp
qed

subsection \<open>Numbers written and read back\<close>

declare str_nat.simps [simp del]

lemma digit_char_cases:
  assumes "d < 10"
  shows "d = 0 \<or> d = 1 \<or> d = 2 \<or> d = 3 \<or> d = 4 \<or> d = 5 \<or> d = 6 \<or> d = 7 \<or> d = 8 \<or> d = (9::nat)"
  using assms by arith

lemma isdecimal_digit_char: "d < 10 \<Longrightarrow> isdecimal_char (digit_char d)"
  using digit_char_cases [of d]
  by (auto simp: isdecimal_char_def digit_char_def)

lemma digit_value_digit_char: "d < 10 \<Longrightarrow> digit_value (digit_char d) = d"
  using digit_char_cases [of d]
  by (auto simp: digit_value_def digit_char_def)

lemma digit_value_le: "isdecimal_char c \<Longrightarrow> digit_value c \<le> 9"
  by (auto simp: isdecimal_char_def digit_value_def Let_def)

lemma str_nat_nonempty: "str_nat n \<noteq> []"
  by (subst str_nat.simps) simp

lemma str_nat_decimal: "list_all isdecimal_char (str_nat n)"
proof (induction n rule: str_nat.induct)
  case (1 n)
  show ?case
  proof (cases "n < 10")
    case True
    then show ?thesis
      by (subst str_nat.simps) (simp add: isdecimal_digit_char)
  next
    case False
    with "1" show ?thesis
      by (subst str_nat.simps) (simp add: isdecimal_digit_char)
  qed
qed

text \<open>The number of digits: \<open>n\<close> has at most \<open>k\<close> digits exactly when \<open>n < 10 ^ k\<close>.\<close>

lemma length_str_nat_le:
  "0 < k \<Longrightarrow> length (str_nat n) \<le> k \<longleftrightarrow> n < 10 ^ k"
proof (induction n arbitrary: k rule: str_nat.induct)
  case (1 n)
  show ?case
  proof (cases "n < 10")
    case True
    have "(10::nat) ^ 1 \<le> 10 ^ k"
      using "1.prems" by (intro power_increasing) simp_all
    then have "n < 10 ^ k" using True by simp
    moreover have "length (str_nat n) = 1"
      using True by (subst str_nat.simps) simp
    ultimately show ?thesis using "1.prems" by simp
  next
    case False
    have len: "length (str_nat n) = Suc (length (str_nat (n div 10)))"
      using False by (subst str_nat.simps) simp
    show ?thesis
    proof (cases k)
      case 0
      then show ?thesis using "1.prems" by simp
    next
      case (Suc k')
      show ?thesis
      proof (cases "k' = 0")
        case True
        have "0 < length (str_nat (n div 10))"
          using str_nat_nonempty [of "n div 10"] by simp
        then show ?thesis using True Suc len False by simp
      next
        case False
        then have "length (str_nat (n div 10)) \<le> k' \<longleftrightarrow> n div 10 < 10 ^ k'"
          using "1.IH" [of k'] \<open>\<not> n < 10\<close> by simp
        moreover have "n div 10 < 10 ^ k' \<longleftrightarrow> n < 10 ^ k' * 10"
          by (simp add: div_less_iff_less_mult)
        ultimately show ?thesis using Suc len by (simp add: mult.commute)
      qed
    qed
  qed
qed

lemma max_str_digits_pos: "0 < max_str_digits"
  by (simp add: max_str_digits_def)

lemma str_ok_iff: "str_ok n \<longleftrightarrow> \<bar>n\<bar> < 10 ^ max_str_digits"
proof -
  have "str_ok n \<longleftrightarrow> nat \<bar>n\<bar> < 10 ^ max_str_digits"
    unfolding str_ok_def by (rule length_str_nat_le) (rule max_str_digits_pos)
  also have "\<dots> \<longleftrightarrow> \<bar>n\<bar> < int (10 ^ max_str_digits)"
    by (simp add: nat_less_iff)
  finally show ?thesis by simp
qed

lemma str_ok_between: "str_ok a \<Longrightarrow> str_ok b \<Longrightarrow> a \<le> x \<Longrightarrow> x \<le> b \<Longrightarrow> str_ok x"
  unfolding str_ok_iff by linarith

lemma str_ok_small: "\<bar>n\<bar> \<le> 10000 \<Longrightarrow> str_ok n"
proof -
  assume "\<bar>n\<bar> \<le> 10000"
  moreover have "(10::int) ^ 4 < 10 ^ max_str_digits"
    by (rule power_strict_increasing) (simp_all add: max_str_digits_def)
  moreover have "(10::int) ^ 4 = 10000" by simp
  ultimately show ?thesis unfolding str_ok_iff by linarith
qed

lemma str_int_eq: "str_int n = (if str_ok n then Inr (decimal_text n) else Inl ValueError)"
  by (simp add: str_int_def decimal_text_def)

lemma format_range_eq:
  "format_range a b = (if str_ok a \<and> str_ok b then Inr (range_text a b) else Inl ValueError)"
  by (simp add: format_range_def range_text_def str_int_eq)

lemma decimal_value_snoc:
  "decimal_value (ds @ [c]) = decimal_value ds * 10 + digit_value c"
  by (simp add: decimal_value_def)

lemma decimal_value_str_nat: "decimal_value (str_nat n) = n"
proof (induction n rule: str_nat.induct)
  case (1 n)
  show ?case
  proof (cases "n < 10")
    case True
    then show ?thesis
      by (subst str_nat.simps) (simp add: decimal_value_def digit_value_digit_char)
  next
    case False
    with "1" show ?thesis
      by (subst str_nat.simps) (simp add: decimal_value_snoc digit_value_digit_char)
  qed
qed

lemma not_decimal_minus: "\<not> isdecimal_char (CHR ''-'')"
  by (simp add: isdecimal_char_def)

lemma str_nat_no_minus: "hd (str_nat n) \<noteq> CHR ''-''"
proof -
  have "isdecimal_char (hd (str_nat n))"
    using str_nat_decimal [of n] str_nat_nonempty [of n]
    by (cases "str_nat n") simp_all
  then show ?thesis using not_decimal_minus by metis
qed

text \<open>A number is read back from the front of a text that goes on with no digit.\<close>

lemma read_nat_str_nat:
  assumes "rest = [] \<or> \<not> isdecimal_char (hd rest)"
  shows "read_nat (str_nat n @ rest) = Some (n, rest)"
proof -
  have all: "\<forall>c \<in> set (str_nat n). isdecimal_char c"
    using str_nat_decimal [of n] by (simp add: list_all_iff)
  have stop: "takeWhile isdecimal_char rest = []"
    using assms by (simp add: takeWhile_eq_Nil_iff)
  have tw: "takeWhile isdecimal_char (str_nat n @ rest) = str_nat n"
    using all stop by (simp add: takeWhile_append2)
  have "dropWhile isdecimal_char rest = rest"
    using assms by (cases rest) auto
  then have dw: "dropWhile isdecimal_char (str_nat n @ rest) = rest"
    using all by (simp add: dropWhile_append2)
  show ?thesis
    by (simp add: read_nat_def tw dw str_nat_nonempty decimal_value_str_nat)
qed

lemma read_int_decimal_text:
  assumes "rest = [] \<or> \<not> isdecimal_char (hd rest)"
  shows "read_int (decimal_text n @ rest) = Some (n, rest)"
proof (cases "n < 0")
  case True
  then show ?thesis
    using read_nat_str_nat [OF assms, of "nat \<bar>n\<bar>"]
    by (simp add: read_int_def decimal_text_def)
next
  case False
  obtain c cs where s: "str_nat (nat \<bar>n\<bar>) = c # cs"
    using str_nat_nonempty [of "nat \<bar>n\<bar>"] by (cases "str_nat (nat \<bar>n\<bar>)") auto
  have "c \<noteq> CHR ''-''"
    using str_nat_no_minus [of "nat \<bar>n\<bar>"] s by simp
  then show ?thesis
    using False read_nat_str_nat [OF assms, of "nat \<bar>n\<bar>"] s
    by (simp add: read_int_def decimal_text_def)
qed

lemma parse_range_range_text: "parse_range (range_text a b) = Some (a, b)"
proof (cases "a = b")
  case True
  then show ?thesis
    using read_int_decimal_text [of "[]" a]
    by (simp add: parse_range_def range_text_def)
next
  case False
  have "read_int (decimal_text a @ ''-'' @ decimal_text b) = Some (a, ''-'' @ decimal_text b)"
    by (rule read_int_decimal_text) (simp add: not_decimal_minus)
  moreover have "read_int (decimal_text b) = Some (b, [])"
    using read_int_decimal_text [of "[]" b] by simp
  ultimately show ?thesis
    using False by (simp add: parse_range_def range_text_def)
qed

text \<open>What \<open>format_range\<close> returns reads back as the pair it was given.\<close>

lemma parse_range_format_range:
  "format_range a b = Inr r \<Longrightarrow> parse_range r = Some (a, b)"
  by (auto simp: format_range_eq parse_range_range_text split: if_splits)

subsection \<open>The ranges of \<open>create_ranges\<close>\<close>

lemma create_ranges_loop_pairs:
  "create_ranges_loop ranges start end' blocks
     = (if list_all (\<lambda>(a, b). str_ok a \<and> str_ok b) (range_pairs_loop start end' blocks)
        then Inr (ranges @ map (\<lambda>(a, b). range_text a b) (range_pairs_loop start end' blocks))
        else Inl ValueError)"
proof (induction blocks arbitrary: ranges start end')
  case Nil
  then show ?case by (simp add: format_range_eq)
next
  case (Cons block rest)
  then show ?case by (simp add: format_range_eq)
qed

lemma create_ranges_pairs:
  "create_ranges (first # rest)
     = (if list_all (\<lambda>(a, b). str_ok a \<and> str_ok b) (range_pairs_loop first first rest)
        then Inr (map (\<lambda>(a, b). range_text a b) (range_pairs_loop first first rest))
        else Inl ValueError)"
  by (simp add: create_ranges_def create_ranges_loop_pairs)

lemma expand_ranges_text:
  "expand_ranges (map (\<lambda>(a, b). range_text a b) ps)
     = Some (concat (map (\<lambda>(a, b). [a..b]) ps))"
  by (induction ps) (auto simp: parse_range_range_text)

lemma parse_ranges_text:
  "map parse_range (map (\<lambda>(a, b). range_text a b) ps) = map Some ps"
  by (induction ps) (auto simp: parse_range_range_text)

lemma concat_range_pairs_loop:
  "start \<le> end' \<Longrightarrow>
     concat (map (\<lambda>(a, b). [a..b]) (range_pairs_loop start end' blocks))
       = [start..end'] @ blocks"
proof (induction blocks arbitrary: start end')
  case Nil
  then show ?case by simp
next
  case (Cons block rest)
  show ?case
  proof (cases "block = end' + 1")
    case True
    have "[start..end' + 1] = [start..end'] @ [end' + 1]"
      using Cons.prems upto_rec2 [of start "end' + 1"] by simp
    then show ?thesis
      using True Cons.IH [of start block] Cons.prems by simp
  next
    case False
    then show ?thesis
      using Cons.IH [of block block] by simp
  qed
qed

text \<open>The ends of the pairs are among the blocks.\<close>

lemma range_pairs_loop_ends:
  "p \<in> set (range_pairs_loop start end' blocks) \<Longrightarrow>
     fst p \<in> insert start (set blocks) \<and> snd p \<in> insert end' (set blocks)"
proof (induction blocks arbitrary: start end')
  case Nil
  then show ?case by auto
next
  case (Cons block rest)
  show ?case
  proof (cases "block = end' + 1")
    case True
    then show ?thesis using Cons.IH [of start block] Cons.prems by auto
  next
    case False
    then show ?thesis using Cons.IH [of block block] Cons.prems by auto
  qed
qed

text \<open>Every block lies in one of the pairs.\<close>

lemma range_pairs_loop_covers:
  assumes "x \<in> set (first # rest)"
  shows "\<exists>p \<in> set (range_pairs_loop first first rest). fst p \<le> x \<and> x \<le> snd p"
proof -
  have "concat (map (\<lambda>(a, b). [a..b]) (range_pairs_loop first first rest)) = first # rest"
    using concat_range_pairs_loop [of first first rest] by simp
  then have "x \<in> set (concat (map (\<lambda>(a, b). [a..b]) (range_pairs_loop first first rest)))"
    using assms by simp
  then show ?thesis by (auto simp: case_prod_beta)
qed

text \<open>
  \<open>create_ranges\<close> returns exactly when every block is within the limit of \<open>str\<close>,
  and then it returns the texts of the pairs.
\<close>

lemma pairs_ok_iff:
  "list_all (\<lambda>(a, b). str_ok a \<and> str_ok b) (range_pairs_loop first first rest)
     \<longleftrightarrow> list_all str_ok (first # rest)"
proof
  assume ok: "list_all (\<lambda>(a, b). str_ok a \<and> str_ok b) (range_pairs_loop first first rest)"
  have "str_ok x" if x: "x \<in> set (first # rest)" for x
  proof -
    obtain p where p: "p \<in> set (range_pairs_loop first first rest)" "fst p \<le> x" "x \<le> snd p"
      using range_pairs_loop_covers [OF x] by blast
    then have "str_ok (fst p) \<and> str_ok (snd p)"
      using ok by (auto simp: list_all_iff case_prod_beta)
    then show ?thesis using p str_ok_between by blast
  qed
  then show "list_all str_ok (first # rest)" by (simp add: list_all_iff)
next
  assume ok: "list_all str_ok (first # rest)"
  have "str_ok (fst p) \<and> str_ok (snd p)"
    if "p \<in> set (range_pairs_loop first first rest)" for p
    using range_pairs_loop_ends [OF that] ok by (auto simp: list_all_iff)
  then show "list_all (\<lambda>(a, b). str_ok a \<and> str_ok b) (range_pairs_loop first first rest)"
    by (auto simp: list_all_iff)
qed

lemma create_ranges_eq:
  "create_ranges (first # rest)
     = (if list_all str_ok (first # rest)
        then Inr (map (\<lambda>(a, b). range_text a b) (range_pairs_loop first first rest))
        else Inl ValueError)"
  by (simp only: create_ranges_pairs pairs_ok_iff)

lemma create_ranges_returns:
  "list_all str_ok blocks \<Longrightarrow> \<exists>ranges. create_ranges blocks = Inr ranges"
proof (cases blocks)
  case Nil
  then show ?thesis by (simp add: create_ranges_def)
next
  case (Cons first rest)
  assume "list_all str_ok blocks"
  then show ?thesis using Cons create_ranges_eq [of first rest] by simp
qed

lemma create_ranges_raises:
  "\<not> list_all str_ok blocks \<Longrightarrow> create_ranges blocks = Inl ValueError"
proof (cases blocks)
  case Nil
  assume "\<not> list_all str_ok blocks"
  then show ?thesis using Nil by simp
next
  case (Cons first rest)
  assume "\<not> list_all str_ok blocks"
  then show ?thesis using Cons create_ranges_eq [of first rest] by simp
qed

lemma expand_create_ranges:
  "create_ranges blocks = Inr ranges \<Longrightarrow> expand_ranges ranges = Some blocks"
proof (cases blocks)
  case Nil
  assume "create_ranges blocks = Inr ranges"
  then show ?thesis using Nil by (simp add: create_ranges_def)
next
  case (Cons first rest)
  assume "create_ranges blocks = Inr ranges"
  then have "ranges = map (\<lambda>(a, b). range_text a b) (range_pairs_loop first first rest)"
    using Cons create_ranges_eq [of first rest] by (simp split: if_splits)
  then show ?thesis
    using Cons by (simp add: expand_ranges_text concat_range_pairs_loop)
qed

lemma range_pairs_loop_bounds:
  "start \<le> end' \<Longrightarrow> sorted_wrt (<) (end' # blocks) \<Longrightarrow>
     p \<in> set (range_pairs_loop start end' blocks) \<Longrightarrow> start \<le> fst p \<and> fst p \<le> snd p"
proof (induction blocks arbitrary: start end')
  case Nil
  then show ?case by auto
next
  case (Cons block rest)
  show ?case
  proof (cases "block = end' + 1")
    case True
    with Cons.prems have "p \<in> set (range_pairs_loop start block rest)" by simp
    moreover have "start \<le> block" using True Cons.prems(1) by simp
    moreover have "sorted_wrt (<) (block # rest)" using Cons.prems(2) by simp
    ultimately show ?thesis using Cons.IH [of start block] by blast
  next
    case False
    with Cons.prems consider "p = (start, end')" | "p \<in> set (range_pairs_loop block block rest)"
      by auto
    then show ?thesis
    proof cases
      case 1
      then show ?thesis using Cons.prems(1) by simp
    next
      case 2
      have "sorted_wrt (<) (block # rest)" using Cons.prems(2) by simp
      then have "block \<le> fst p \<and> fst p \<le> snd p"
        using Cons.IH [of block block] 2 by simp
      moreover have "end' < block" using Cons.prems(2) by simp
      ultimately show ?thesis using Cons.prems(1) by simp
    qed
  qed
qed

lemma range_pairs_loop_hd:
  "fst (hd (range_pairs_loop start end' blocks)) = start"
  by (induction blocks arbitrary: end') simp_all

lemma range_pairs_loop_nonempty: "range_pairs_loop start end' blocks \<noteq> []"
  by (induction blocks arbitrary: start end') simp_all

lemma range_pairs_loop_hd_le:
  "start \<le> end' \<Longrightarrow> start \<le> snd (hd (range_pairs_loop start end' blocks))"
proof (induction blocks arbitrary: end')
  case Nil
  then show ?case by simp
next
  case (Cons block rest)
  show ?case
  proof (cases "block = end' + 1")
    case True
    then show ?thesis
      using Cons.IH [of block] Cons.prems by simp
  next
    case False
    then show ?thesis
      using Cons.prems by simp
  qed
qed

lemma range_pairs_loop_unmergeable:
  "successively (\<lambda>p q. snd p + 1 \<noteq> fst q) (range_pairs_loop start end' blocks)"
proof (induction blocks arbitrary: start end')
  case Nil
  then show ?case by simp
next
  case (Cons block rest)
  then show ?case
    by (simp add: successively_Cons range_pairs_loop_hd)
qed

lemma range_pairs_loop_ascending:
  "start \<le> end' \<Longrightarrow> sorted_wrt (<) (end' # blocks) \<Longrightarrow>
     sorted_wrt (\<lambda>p q. snd p < fst q) (range_pairs_loop start end' blocks)"
proof (induction blocks arbitrary: start end')
  case Nil
  then show ?case by simp
next
  case (Cons block rest)
  have tail: "sorted_wrt (<) (block # rest)" using Cons.prems(2) by simp
  show ?case
  proof (cases "block = end' + 1")
    case True
    then show ?thesis
      using Cons.IH [of start block] Cons.prems(1) tail by simp
  next
    case False
    have "end' < fst q" if "q \<in> set (range_pairs_loop block block rest)" for q
      using range_pairs_loop_bounds [of block block rest q] that tail Cons.prems(2) by simp
    then show ?thesis
      using False Cons.IH [of block block] tail by simp
  qed
qed


text \<open>What \<open>create_ranges\<close> returns, as pairs.\<close>

lemma create_ranges_Inr:
  assumes "create_ranges (first # rest) = Inr ranges"
  shows "ranges = map (\<lambda>(a, b). range_text a b) (range_pairs_loop first first rest)"
    and "list_all (\<lambda>(a, b). str_ok a \<and> str_ok b) (range_pairs_loop first first rest)"
  using assms create_ranges_pairs [of first rest] by (simp_all split: if_splits)

text \<open>
  C2. For a sorted list \<open>S\<close> without duplicates, reading the texts that
  \<open>create_ranges S\<close> returns back (a single number as that number, \<open>start-end\<close> as
  the integers from \<open>start\<close> to \<open>end\<close>) gives \<open>S\<close> again, in the same order; and
  \<open>create_ranges S\<close> does return them when every integer of \<open>S\<close> is within the limit
  of \<open>str\<close>. By \<open>expand_create_ranges\<close> the round trip holds of every list.
\<close>

theorem create_ranges_round_trip:
  assumes "sorted S" and "distinct S"
  shows "(list_all str_ok S \<longrightarrow> (\<exists>ranges. create_ranges S = Inr ranges))
    \<and> (\<forall>ranges. create_ranges S = Inr ranges \<longrightarrow> expand_ranges ranges = Some S)"
  using create_ranges_returns expand_create_ranges by blast

theorem create_ranges_round_trip_witness:
  "sorted [-5, -4, -3, 0, 7, 10, 11, 12 :: int] \<and> distinct [-5, -4, -3, 0, 7, 10, 11, 12 :: int]
    \<and> list_all str_ok [-5, -4, -3, 0, 7, 10, 11, 12]
    \<and> create_ranges [-5, -4, -3, 0, 7, 10, 11, 12] = Inr [''-5--3'', ''0'', ''7'', ''10-12'']
    \<and> expand_ranges [''-5--3'', ''0'', ''7'', ''10-12''] = Some [-5, -4, -3, 0, 7, 10, 11, 12]"
proof -
  have s: "sorted [-5, -4, -3, 0, 7, 10, 11, 12 :: int]" by simp
  have d: "distinct [-5, -4, -3, 0, 7, 10, 11, 12 :: int]" by simp
  have k: "list_all str_ok [-5, -4, -3, 0, 7, 10, 11, 12]" by code_simp
  have v: "create_ranges [-5, -4, -3, 0, 7, 10, 11, 12]
             = Inr [''-5--3'', ''0'', ''7'', ''10-12'']"
    by code_simp
  from s d k v create_ranges_round_trip [OF s d] show ?thesis
    by blast
qed

text \<open>
  C4. For a sorted list \<open>S\<close> without duplicates, every text that \<open>create_ranges S\<close>
  returns stands for an interval \<open>(start, end)\<close> with \<open>start \<le> end\<close>; for two
  neighbours in the list, the end of the first plus one is not the start of the second;
  and every interval ends before each later one starts, so they ascend and do not
  overlap. \<open>create_ranges S\<close> returns when every integer of \<open>S\<close> is within the limit of
  \<open>str\<close>.
\<close>

theorem create_ranges_maximal_ordered:
  assumes "sorted S" and "distinct S"
  shows "(list_all str_ok S \<longrightarrow> (\<exists>ranges. create_ranges S = Inr ranges))
    \<and> (\<forall>ranges. create_ranges S = Inr ranges \<longrightarrow>
         (\<exists>ps. map parse_range ranges = map Some ps
            \<and> list_all (\<lambda>p. fst p \<le> snd p) ps
            \<and> successively (\<lambda>p q. snd p + 1 \<noteq> fst q) ps
            \<and> sorted_wrt (\<lambda>p q. snd p < fst q) ps))"
proof -
  have "\<exists>ps. map parse_range ranges = map Some ps
            \<and> list_all (\<lambda>p. fst p \<le> snd p) ps
            \<and> successively (\<lambda>p q. snd p + 1 \<noteq> fst q) ps
            \<and> sorted_wrt (\<lambda>p q. snd p < fst q) ps"
    if r: "create_ranges S = Inr ranges" for ranges
  proof (cases S)
    case Nil
    then have "map parse_range ranges = map Some []"
      using r by (simp add: create_ranges_def)
    then show ?thesis by force
  next
    case (Cons first rest)
    define ps where "ps = range_pairs_loop first first rest"
    have asc: "sorted_wrt (<) (first # rest)"
      using assms Cons strict_sorted_iff by blast
    have "ranges = map (\<lambda>(a, b). range_text a b) ps"
      unfolding ps_def using r Cons create_ranges_Inr(1) by blast
    then have "map parse_range ranges = map Some ps"
      by (simp only: parse_ranges_text)
    moreover have "list_all (\<lambda>p. fst p \<le> snd p) ps"
      using range_pairs_loop_bounds [of first first rest] asc
      by (auto simp: list_all_iff ps_def)
    moreover have "successively (\<lambda>p q. snd p + 1 \<noteq> fst q) ps"
      unfolding ps_def by (rule range_pairs_loop_unmergeable)
    moreover have "sorted_wrt (\<lambda>p q. snd p < fst q) ps"
      unfolding ps_def using asc by (intro range_pairs_loop_ascending) simp_all
    ultimately show ?thesis by blast
  qed
  then show ?thesis using create_ranges_returns by blast
qed

theorem create_ranges_maximal_ordered_witness:
  "sorted [0, 1, 3, 4, 6, 7, 8, 10 :: int] \<and> distinct [0, 1, 3, 4, 6, 7, 8, 10 :: int]
    \<and> list_all str_ok [0, 1, 3, 4, 6, 7, 8, 10]
    \<and> create_ranges [0, 1, 3, 4, 6, 7, 8, 10] = Inr [''0-1'', ''3-4'', ''6-8'', ''10'']
    \<and> map parse_range [''0-1'', ''3-4'', ''6-8'', ''10'']
        = map Some [(0, 1), (3, 4), (6, 8), (10, 10)]
    \<and> (\<exists>ps. map parse_range [''0-1'', ''3-4'', ''6-8'', ''10''] = map Some ps
        \<and> list_all (\<lambda>p. fst p \<le> snd p) ps
        \<and> successively (\<lambda>p q. snd p + 1 \<noteq> fst q) ps
        \<and> sorted_wrt (\<lambda>p q. snd p < fst q) ps)"
proof -
  have s: "sorted [0, 1, 3, 4, 6, 7, 8, 10 :: int]" by simp
  have d: "distinct [0, 1, 3, 4, 6, 7, 8, 10 :: int]" by simp
  have k: "list_all str_ok [0, 1, 3, 4, 6, 7, 8, 10]" by code_simp
  have v: "create_ranges [0, 1, 3, 4, 6, 7, 8, 10] = Inr [''0-1'', ''3-4'', ''6-8'', ''10'']"
    by code_simp
  have p: "map parse_range [''0-1'', ''3-4'', ''6-8'', ''10'']
        = map Some [(0, 1), (3, 4), (6, 8), (10, 10)]"
    by code_simp
  from s d k v p create_ranges_maximal_ordered [OF s d] show ?thesis
    by blast
qed

text \<open>
  C10, as stated, fails: \<open>create_ranges\<close> raises on an integer that \<open>str\<close> does not
  convert. \<open>10 ^ 4300\<close> has 4301 digits.
\<close>

theorem create_ranges_limit_counterexample:
  "create_ranges [10 ^ 4300] = Inl ValueError"
proof -
  have "\<not> str_ok (10 ^ max_str_digits)"
    by (simp add: str_ok_iff)
  then have "\<not> list_all str_ok [10 ^ max_str_digits]"
    by simp
  then have "create_ranges [10 ^ max_str_digits] = Inl ValueError"
    by (rule create_ranges_raises)
  then show ?thesis unfolding max_str_digits_def .
qed

text \<open>
  C10, amended. \<open>create_ranges\<close> is defined on every list of integers, sorted or not.
  It returns when every integer of the list is within the limit of \<open>str\<close> (at most 4300
  digits; \<open>str_ok_iff\<close>), and raises \<open>ValueError\<close> otherwise. What it returns is empty
  exactly when the input is; for a non-empty input the first text stands for an interval
  that starts at the first element; and reading the result back gives the input.
\<close>

theorem create_ranges_within_limit:
  "(list_all str_ok blocks \<longrightarrow>
      (\<exists>ranges. create_ranges blocks = Inr ranges
         \<and> (ranges = [] \<longleftrightarrow> blocks = [])
         \<and> (blocks \<noteq> [] \<longrightarrow>
              (\<exists>end'. hd blocks \<le> end'
                 \<and> format_range (hd blocks) end' = Inr (hd ranges)
                 \<and> parse_range (hd ranges) = Some (hd blocks, end')))
         \<and> expand_ranges ranges = Some blocks))
    \<and> (\<not> list_all str_ok blocks \<longrightarrow> create_ranges blocks = Inl ValueError)"
proof -
  have "\<exists>ranges. create_ranges blocks = Inr ranges
         \<and> (ranges = [] \<longleftrightarrow> blocks = [])
         \<and> (blocks \<noteq> [] \<longrightarrow>
              (\<exists>end'. hd blocks \<le> end'
                 \<and> format_range (hd blocks) end' = Inr (hd ranges)
                 \<and> parse_range (hd ranges) = Some (hd blocks, end')))
         \<and> expand_ranges ranges = Some blocks"
    if ok: "list_all str_ok blocks"
  proof (cases blocks)
    case Nil
    then show ?thesis by (simp add: create_ranges_def)
  next
    case (Cons first rest)
    define ps where "ps = range_pairs_loop first first rest"
    define ranges where "ranges = map (\<lambda>(a, b). range_text a b) ps"
    have cr: "create_ranges blocks = Inr ranges"
      using ok Cons create_ranges_eq [of first rest] by (simp add: ranges_def ps_def)
    have pairs_ok: "list_all (\<lambda>(a, b). str_ok a \<and> str_ok b) ps"
      unfolding ps_def using cr Cons create_ranges_Inr(2) by blast
    have ne: "ps \<noteq> []" unfolding ps_def by (rule range_pairs_loop_nonempty)
    have f: "fst (hd ps) = first" unfolding ps_def by (rule range_pairs_loop_hd)
    have le: "first \<le> snd (hd ps)"
      unfolding ps_def by (rule range_pairs_loop_hd_le) simp
    have "hd ps \<in> set ps" using ne by simp
    then have hd_ok: "str_ok first \<and> str_ok (snd (hd ps))"
      using pairs_ok f by (auto simp: list_all_iff case_prod_beta)
    have hd_text: "hd ranges = range_text first (snd (hd ps))"
      using ne f by (cases ps) (auto simp: ranges_def case_prod_beta)
    have "format_range first (snd (hd ps)) = Inr (hd ranges)"
      using hd_ok hd_text by (simp add: format_range_eq)
    moreover have "parse_range (hd ranges) = Some (first, snd (hd ps))"
      using hd_text by (simp add: parse_range_range_text)
    moreover have "ranges \<noteq> []" using ne by (simp add: ranges_def)
    moreover have "expand_ranges ranges = Some blocks"
      using cr by (rule expand_create_ranges)
    ultimately show ?thesis
      using cr le Cons by auto
  qed
  then show ?thesis using create_ranges_raises by blast
qed

theorem create_ranges_within_limit_witness:
  "list_all str_ok [3, 4, 4, 2]
    \<and> create_ranges [3, 4, 4, 2] = Inr [''3-4'', ''4'', ''2'']
    \<and> (\<exists>end'. 3 \<le> end' \<and> format_range 3 end' = Inr ''3-4''
          \<and> parse_range ''3-4'' = Some (3, end'))
    \<and> expand_ranges [''3-4'', ''4'', ''2''] = Some [3, 4, 4, 2]
    \<and> \<not> list_all str_ok [5, 10 ^ max_str_digits]
    \<and> create_ranges [5, 10 ^ max_str_digits] = Inl ValueError"
proof -
  have k: "list_all str_ok [3, 4, 4, 2]" by code_simp
  have v: "create_ranges [3, 4, 4, 2] = Inr [''3-4'', ''4'', ''2'']" by code_simp
  have "\<not> str_ok (10 ^ max_str_digits)"
    by (simp add: str_ok_iff)
  then have n: "\<not> list_all str_ok [5, 10 ^ max_str_digits]"
    by simp
  from k v n create_ranges_within_limit [of "[3, 4, 4, 2]"]
    create_ranges_within_limit [of "[5, 10 ^ max_str_digits]"]
  show ?thesis by simp
qed

subsection \<open>\<open>parse_blocks\<close>\<close>

lemma isdigit_char_not_space: "isdigit_char c \<Longrightarrow> \<not> int_space_char c"
  by (auto simp: isdigit_char_def int_space_char_def Let_def)

lemma isdigit_char_not_sign: "isdigit_char c \<Longrightarrow> c \<noteq> CHR ''-'' \<and> c \<noteq> CHR ''+''"
  by (auto simp: isdigit_char_def Let_def)

lemma isdecimal_char_isdigit: "isdecimal_char c \<Longrightarrow> isdigit_char c"
  by (simp add: isdigit_char_def isdecimal_char_def Let_def)

lemma strip_nothing:
  assumes "\<forall>c \<in> set s. \<not> P c"
  shows "rev (dropWhile P (rev (dropWhile P s))) = s"
proof (cases s)
  case Nil
  then show ?thesis by simp
next
  case (Cons c cs)
  then have front: "dropWhile P s = s"
    using assms by simp
  have "rev s \<noteq> []" using Cons by simp
  moreover have "hd (rev s) \<in> set (rev s)"
    using calculation by (rule hd_in_set)
  then have "\<not> P (hd (rev s))"
    using assms by simp
  ultimately have "dropWhile P (rev s) = rev s"
    by (simp add: dropWhile_eq_self_iff)
  then show ?thesis
    by (simp add: front)
qed

lemma strip_isdigit:
  "isdigit part \<Longrightarrow>
     rev (dropWhile int_space_char (rev (dropWhile int_space_char part))) = part"
  by (rule strip_nothing) (auto simp: isdigit_def list_all_iff isdigit_char_not_space)

text \<open>On a token that passes \<open>isdigit\<close>, \<open>int\<close> reads the token as it is, with no sign.\<close>

lemma py_int_isdigit:
  assumes "isdigit part"
  shows "py_int part = (case int_literal part of Inl e \<Rightarrow> Inl e | Inr n \<Rightarrow> Inr (int n))"
proof -
  have s: "rev (dropWhile int_space_char (rev (dropWhile int_space_char part))) = part"
    using assms by (rule strip_isdigit)
  obtain c cs where p: "part = c # cs" using assms by (cases part) (auto simp: isdigit_def)
  have "c \<noteq> CHR ''-'' \<and> c \<noteq> CHR ''+''"
    using assms p isdigit_char_not_sign by (simp add: isdigit_def)
  then show ?thesis
    unfolding py_int_def s by (simp add: p)
qed

lemma int_digits_decimal:
  "list_all isdecimal_char ds \<Longrightarrow> ds \<noteq> [] \<or> after_digit \<Longrightarrow>
     int_digits acc after_digit ds
       = Some (foldl (\<lambda>acc c. acc * 10 + digit_value c) acc ds)"
  by (induction ds arbitrary: acc after_digit) simp_all

text \<open>On a token of at most 4300 decimal digits, \<open>int\<close> returns its value.\<close>

lemma py_int_decimal:
  assumes "part \<noteq> []" and "list_all isdecimal_char part"
    and "length part \<le> max_str_digits"
  shows "py_int part = Inr (int (decimal_value part))"
proof -
  have "isdigit part"
    using assms by (auto simp: isdigit_def list_all_iff isdecimal_char_isdigit)
  moreover have "int_digits 0 False part = Some (decimal_value part)"
    using int_digits_decimal [OF assms(2), of False 0] assms(1)
    by (simp add: decimal_value_def)
  moreover have "filter isdecimal_char part = part"
    using assms(2) by (simp add: list_all_iff)
  ultimately show ?thesis
    using assms(3) by (simp add: py_int_isdigit int_literal_def)
qed

text \<open>On a token that passes \<open>isdigit\<close>, \<open>int\<close> returns no negative number.\<close>

lemma py_int_isdigit_nonneg:
  assumes "isdigit part" and "py_int part = Inr n"
  shows "0 \<le> n"
  using assms(2) unfolding py_int_isdigit [OF assms(1)] by (auto split: sum.splits)

lemma int_literal_error: "int_literal ds = Inl e \<Longrightarrow> e = ValueError"
  by (auto simp: int_literal_def split: option.splits if_splits)

lemma py_int_error: "py_int s = Inl e \<Longrightarrow> e = ValueError"
  by (auto simp: py_int_def split: list.splits if_splits sum.splits dest: int_literal_error)

text \<open>What \<open>int\<close> returns is within the limit of \<open>str\<close>.\<close>

lemma int_digits_bound:
  "int_digits acc after_digit cs = Some v \<Longrightarrow>
     v < (acc + 1) * 10 ^ length (filter isdecimal_char cs)"
proof (induction cs arbitrary: acc after_digit)
  case Nil
  then show ?case by (simp split: if_splits)
next
  case (Cons c cs)
  show ?case
  proof (cases "isdecimal_char c")
    case True
    then have "int_digits (acc * 10 + digit_value c) True cs = Some v"
      using Cons.prems by simp
    then have "v < (acc * 10 + digit_value c + 1) * 10 ^ length (filter isdecimal_char cs)"
      by (rule Cons.IH)
    also have "\<dots> \<le> (acc * 10 + 10) * 10 ^ length (filter isdecimal_char cs)"
      using digit_value_le [OF True] by (intro mult_right_mono) simp_all
    finally show ?thesis using True by (simp add: algebra_simps)
  next
    case False
    then have "int_digits acc False cs = Some v"
      using Cons.prems by (simp split: if_splits)
    then show ?thesis using Cons.IH False by simp
  qed
qed

lemma int_literal_bound: "int_literal ds = Inr n \<Longrightarrow> n < 10 ^ max_str_digits"
proof -
  assume a: "int_literal ds = Inr n"
  then have v: "int_digits 0 False ds = Some n"
      and len: "length (filter isdecimal_char ds) \<le> max_str_digits"
    by (auto simp: int_literal_def split: option.splits if_splits)
  have "n < 10 ^ length (filter isdecimal_char ds)"
    using int_digits_bound [OF v] by simp
  also have "\<dots> \<le> 10 ^ max_str_digits"
    using len by (intro power_increasing) simp_all
  finally show ?thesis .
qed

lemma py_int_str_ok: "py_int s = Inr n \<Longrightarrow> str_ok n"
proof -
  assume "py_int s = Inr n"
  then obtain ds m where "int_literal ds = Inr m" and "\<bar>n\<bar> = int m"
    by (auto simp: py_int_def split: list.splits if_splits sum.splits)
  then have "\<bar>n\<bar> < int (10 ^ max_str_digits)"
    using int_literal_bound [of ds m] by simp
  then show ?thesis by (simp add: str_ok_iff)
qed

lemma parse_lines_nonneg:
  "parse_lines blocks lines = Inr result \<Longrightarrow> \<forall>b \<in> set blocks. 0 \<le> b \<Longrightarrow>
     \<forall>b \<in> set result. 0 \<le> b"
proof (induction lines arbitrary: blocks)
  case Nil
  then show ?case by simp
next
  case (Cons line rest)
  show ?case
  proof (cases "split_whitespace line")
    case Nil
    then show ?thesis using Cons by simp
  next
    case (Cons part parts)
    note tok = this
    show ?thesis
    proof (cases "isdigit part")
      case False
      then show ?thesis using Cons.IH Cons.prems tok by simp
    next
      case True
      then obtain n where n: "py_int part = Inr n"
          and rest: "parse_lines (blocks @ [n]) rest = Inr result"
        using Cons.prems(1) tok by (auto split: sum.splits)
      have "0 \<le> n" using True n by (rule py_int_isdigit_nonneg)
      then have "\<forall>b \<in> set (blocks @ [n]). 0 \<le> b" using Cons.prems(2) by simp
      then show ?thesis using Cons.IH [OF rest] by blast
    qed
  qed
qed

lemma parse_lines_error: "parse_lines blocks lines = Inl e \<Longrightarrow> e = ValueError"
proof (induction lines arbitrary: blocks)
  case Nil
  then show ?case by simp
next
  case (Cons line rest)
  then show ?case
    by (auto split: list.splits if_splits sum.splits dest: py_int_error)
qed

lemma set_strip: "set (strip s) \<subseteq> set s"
proof -
  have "set (strip s) \<subseteq> set (rev (dropWhile isspace_char s))"
    unfolding strip_def set_rev by (auto dest: set_dropWhileD)
  then show ?thesis by (auto dest: set_dropWhileD)
qed

lemma set_split_newline: "l \<in> set (split_newline s) \<Longrightarrow> set l \<subseteq> set s"
proof (induction s arbitrary: l)
  case Nil
  then show ?case by simp
next
  case (Cons c cs)
  show ?case
  proof (cases "split_newline cs")
    case Nil
    then show ?thesis using Cons.prems by (auto split: if_splits)
  next
    case (Cons piece pieces)
    then have "set piece \<subseteq> set cs" using Cons.IH [of piece] by simp
    moreover have "l' \<in> set pieces \<Longrightarrow> set l' \<subseteq> set cs" for l'
      using Cons Cons.IH [of l'] by simp
    ultimately show ?thesis
      using Cons Cons.prems by (auto split: if_splits)
  qed
qed

lemma set_split_whitespace: "t \<in> set (split_whitespace l) \<Longrightarrow> set t \<subseteq> set l"
proof (induction l arbitrary: t rule: split_whitespace.induct)
  case 1
  then show ?case by simp
next
  case (2 c cs)
  show ?case
  proof (cases "isspace_char c")
    case True
    then show ?thesis using 2 by auto
  next
    case False
    then consider "t = c # takeWhile (\<lambda>x. \<not> isspace_char x) cs"
      | "t \<in> set (split_whitespace (dropWhile (\<lambda>x. \<not> isspace_char x) cs))"
      using "2.prems" by auto
    then show ?thesis
    proof cases
      case 1
      then show ?thesis by (auto dest: set_takeWhileD)
    next
      case 2
      then have "set t \<subseteq> set (dropWhile (\<lambda>x. \<not> isspace_char x) cs)"
        using "2.IH"(2) False by blast
      then show ?thesis by (auto dest: set_dropWhileD)
    qed
  qed
qed

lemma length_split_whitespace:
  "t \<in> set (split_whitespace l) \<Longrightarrow> length t \<le> length l"
proof (induction l arbitrary: t rule: split_whitespace.induct)
  case 1
  then show ?case by simp
next
  case (2 c cs)
  show ?case
  proof (cases "isspace_char c")
    case True
    then show ?thesis using 2 by fastforce
  next
    case False
    then consider "t = c # takeWhile (\<lambda>x. \<not> isspace_char x) cs"
      | "t \<in> set (split_whitespace (dropWhile (\<lambda>x. \<not> isspace_char x) cs))"
      using "2.prems" by auto
    then show ?thesis
    proof cases
      case 1
      then show ?thesis by (simp add: length_takeWhile_le)
    next
      case 2
      then have "length t \<le> length (dropWhile (\<lambda>x. \<not> isspace_char x) cs)"
        using "2.IH"(2) False by blast
      also have "\<dots> \<le> length cs" by (rule length_dropWhile_le)
      finally show ?thesis by simp
    qed
  qed
qed

lemma parse_lines_decimal:
  assumes "\<forall>l \<in> set lines. \<forall>c \<in> set l. isdigit_char c \<longrightarrow> isdecimal_char c"
    and "\<forall>l \<in> set lines. length l \<le> max_str_digits"
  shows "\<exists>result. parse_lines blocks lines = Inr result"
  using assms
proof (induction lines arbitrary: blocks)
  case Nil
  then show ?case by simp
next
  case (Cons line rest)
  show ?case
  proof (cases "split_whitespace line")
    case Nil
    then show ?thesis using Cons by simp
  next
    case (Cons part parts)
    note tok = this
    show ?thesis
    proof (cases "isdigit part")
      case False
      then show ?thesis using Cons.IH Cons.prems tok by simp
    next
      case True
      have "set part \<subseteq> set line"
        using tok set_split_whitespace [of part line] by simp
      then have "list_all isdecimal_char part"
        using True Cons.prems(1) by (auto simp: isdigit_def list_all_iff)
      moreover have "part \<noteq> []" using True by (simp add: isdigit_def)
      moreover have "length part \<le> length line"
        using tok length_split_whitespace [of part line] by simp
      then have "length part \<le> max_str_digits"
        using Cons.prems(2) by fastforce
      ultimately have "py_int part = Inr (int (decimal_value part))"
        using py_int_decimal by blast
      then show ?thesis using Cons.IH Cons.prems tok True by simp
    qed
  qed
qed

text \<open>What holds of \<open>parse_blocks\<close> on every text.\<close>

lemma parse_blocks_empty: "parse_blocks [] = Inr []"
  by (simp add: parse_blocks_def strip_def)

lemma parse_blocks_result:
  assumes "parse_blocks data = Inr blocks"
  shows "sorted blocks \<and> distinct blocks \<and> (\<forall>b \<in> set blocks. 0 \<le> b)"
proof -
  obtain raw where raw: "parse_lines [] (split_newline (strip data)) = Inr raw"
      and blocks: "blocks = sorted_list_of_set (set raw)"
    using assms by (auto simp: parse_blocks_def split: sum.splits)
  have "\<forall>b \<in> set raw. 0 \<le> b"
    using parse_lines_nonneg [OF raw] by simp
  then show ?thesis by (simp add: blocks)
qed

lemma parse_blocks_error: "parse_blocks data = Inl e \<Longrightarrow> e = ValueError"
  by (auto simp: parse_blocks_def split: sum.splits dest: parse_lines_error)

text \<open>
  A text in which every digit is a decimal digit (so one without the superscripts
  U+00B2, U+00B3 and U+00B9) and no line is longer than 4300 characters is parsed
  without an exception.
\<close>

lemma parse_blocks_decimal:
  assumes "\<forall>c \<in> set data. isdigit_char c \<longrightarrow> isdecimal_char c"
    and "\<forall>l \<in> set (split_newline (strip data)). length l \<le> max_str_digits"
  shows "\<exists>blocks. parse_blocks data = Inr blocks"
proof -
  have "\<forall>l \<in> set (split_newline (strip data)). \<forall>c \<in> set l. isdigit_char c \<longrightarrow> isdecimal_char c"
    using assms(1) set_strip [of data] set_split_newline by blast
  then obtain raw where "parse_lines [] (split_newline (strip data)) = Inr raw"
    using parse_lines_decimal assms(2) by blast
  then show ?thesis by (simp add: parse_blocks_def)
qed

text \<open>
  C5. The claim is that no text makes \<open>parse_blocks\<close> raise: a line whose first token
  is not a decimal number is skipped. The guard of the loop is \<open>str.isdigit\<close>, which is
  also true of the superscript digits, and \<open>int\<close> does not read those: on the text of
  the one character U+00B2 (superscript two) the token passes the guard and
  \<open>parse_blocks\<close> raises \<open>ValueError\<close>.
\<close>

theorem parse_blocks_superscript_two: "parse_blocks [CHR 0xB2] = Inl ValueError"
  by code_simp

text \<open>
  C8. Scenario 6: the text of the five lines \<open>5\<close>, \<open>2\<close>, \<open>2\<close>, \<open>5\<close>, \<open>9\<close> is parsed
  to \<open>[2, 5, 9]\<close>; with ten blocks the bad blocks are \<open>[0, 1, 3, 4, 6, 7, 8]\<close>, and
  their ranges are \<open>0-1\<close>, \<open>3-4\<close>, \<open>6-8\<close>.
\<close>

theorem scenario_6:
  "parse_blocks [CHR ''5'', CHR 0x0A, CHR ''2'', CHR 0x0A, CHR ''2'', CHR 0x0A, CHR ''5'',
                 CHR 0x0A, CHR ''9''] = Inr [2, 5, 9]
    \<and> invert_blocks [2, 5, 9] 10 = [0, 1, 3, 4, 6, 7, 8]
    \<and> create_ranges [0, 1, 3, 4, 6, 7, 8] = Inr [''0-1'', ''3-4'', ''6-8'']"
  by code_simp

subsection \<open>\<open>main\<close> with a scale of zero\<close>

text \<open>
  C6, as stated, fails: \<open>main\<close> has no check of \<open>sectors_per_block\<close>. With 5 sectors
  and 10 blocks the scale is \<open>5 // 10 = 0\<close>; with the good block \<open>0\<close> as input the run
  reaches the output files, and each of the nine bad blocks gets the sector range
  \<open>(0, -1)\<close>.
\<close>

theorem main_zero_scale_counterexample:
  "(5::int) div 10 = 0
    \<and> main [''5'', ''10'', ''0'']
        = FilesWritten [(0, -1), (0, -1), (0, -1), (0, -1), (0, -1), (0, -1), (0, -1), (0, -1), (0, -1)]
            [''1-9'']"
  by code_simp

lemma sector_range_zero: "sector_range b 0 = (0, -1)"
  by (simp add: sector_range_def block_to_sector_def)

lemma no_overflow_zero: "\<not> true_div_overflows 0 1024"
  by (simp add: true_div_overflows_def)

lemma write_sector_lines_returns:
  "list_all (\<lambda>(a, b). str_ok a \<and> str_ok b) rs \<Longrightarrow> \<exists>written. write_sector_lines rs = Inr written"
  by (induction rs) (auto simp: str_int_eq)

lemma write_sector_lines_zero:
  "\<exists>written. write_sector_lines (map (\<lambda>block. (0, -1)) blocks) = Inr written"
  by (rule write_sector_lines_returns) (simp add: list_all_iff str_ok_small)

lemma write_sector_lines_zero_case:
  "(case write_sector_lines (map (\<lambda>block. (0, -1)) blocks) of
      Inl e \<Rightarrow> Raised e
    | Inr written \<Rightarrow> result) = result"
proof -
  obtain written where "write_sector_lines (map (\<lambda>block. (0, -1)) blocks) = Inr written"
    using write_sector_lines_zero by blast
  then show ?thesis by simp
qed

text \<open>The blocks below a total that \<open>int\<close> has returned are within the limit of \<open>str\<close>.\<close>

lemma invert_blocks_str_ok:
  assumes "str_ok total_blocks"
  shows "list_all str_ok (invert_blocks good total_blocks)"
proof -
  have "str_ok b" if "b \<in> set (invert_blocks good total_blocks)" for b
  proof -
    have "0 \<le> b" and "b \<le> total_blocks"
      using that by (auto simp: invert_blocks_def)
    moreover have "str_ok 0" by (simp add: str_ok_small)
    ultimately show ?thesis using assms str_ok_between by blast
  qed
  then show ?thesis by (simp add: list_all_iff)
qed

text \<open>
  C6, amended. When \<open>sectors_per_block = total_sectors // total_blocks\<close> is 0 (and
  \<open>total_blocks\<close> is not 0), \<open>main\<close> raises no error for it and goes on. The run ends
  without files only in four cases: \<open>total_sectors * 512\<close> is too large for a float
  (\<open>OverflowError\<close> from the first \<open>print\<close> of the drive size), \<open>parse_blocks\<close>
  raises, it finds no block, or no bad block is left. Otherwise \<open>create_ranges\<close>
  returns (last conjunct: it returns on the bad blocks of every good list) and the two
  files are written, with the sector range \<open>(0, -1)\<close> for every bad block.
\<close>

theorem main_zero_scale:
  assumes "strip line1 \<noteq> []"
    and "py_int (strip line1) = Inr total_sectors"
    and "(if strip line2 = [] then Inr 10000 else py_int (strip line2)) = Inr total_blocks"
    and "total_blocks \<noteq> 0"
    and "total_sectors div total_blocks = 0"
  shows "main (line1 # line2 # lines) =
     (if float_overflows (total_sectors * 512) then Raised OverflowError
      else
        (case parse_blocks (join_newline lines) of
           Inl e \<Rightarrow> Raised e
         | Inr good_blocks \<Rightarrow>
             if good_blocks = [] then NoValidBlocks
             else if invert_blocks good_blocks total_blocks = [] then NoBadBlocks
             else
               (case create_ranges (invert_blocks good_blocks total_blocks) of
                  Inl e \<Rightarrow> Raised e
                | Inr bad_ranges \<Rightarrow>
                    FilesWritten
                      (map (\<lambda>block. (0, -1)) (invert_blocks good_blocks total_blocks))
                      bad_ranges)))
    \<and> (\<exists>bad_ranges. create_ranges (invert_blocks good total_blocks) = Inr bad_ranges)"
proof -
  have tb_ok: "str_ok total_blocks"
  proof (cases "strip line2 = []")
    case True
    then show ?thesis using assms(3) by (simp add: str_ok_small)
  next
    case False
    then show ?thesis using assms(3) py_int_str_ok by simp
  qed
  have returns: "\<exists>bad_ranges. create_ranges (invert_blocks g total_blocks) = Inr bad_ranges" for g
    using invert_blocks_str_ok [OF tb_ok] by (rule create_ranges_returns)
  have "main (line1 # line2 # lines) = main_body total_sectors total_blocks lines"
    using assms(1-3) by (simp add: main_def)
  also have "\<dots> =
     (if float_overflows (total_sectors * 512) then Raised OverflowError
      else
        (case parse_blocks (join_newline lines) of
           Inl e \<Rightarrow> Raised e
         | Inr good_blocks \<Rightarrow>
             if good_blocks = [] then NoValidBlocks
             else if invert_blocks good_blocks total_blocks = [] then NoBadBlocks
             else
               (case create_ranges (invert_blocks good_blocks total_blocks) of
                  Inl e \<Rightarrow> Raised e
                | Inr bad_ranges \<Rightarrow>
                    FilesWritten
                      (map (\<lambda>block. (0, -1)) (invert_blocks good_blocks total_blocks))
                      bad_ranges)))"
  proof (cases "parse_blocks (join_newline lines)")
    case (Inl e)
    then show ?thesis
      using assms(4,5) by (simp add: main_body_def Let_def no_overflow_zero)
  next
    case (Inr good_blocks)
    show ?thesis
    proof (cases "create_ranges (invert_blocks good_blocks total_blocks)")
      case (Inl e)
      then show ?thesis
        using assms(4,5) Inr by (simp add: main_body_def Let_def no_overflow_zero)
    next
      case create: (Inr bad_ranges)
      then show ?thesis
        using assms(4,5) Inr
        by (simp add: main_body_def Let_def no_overflow_zero sector_ranges_def
            sector_range_zero write_sector_lines_zero_case)
    qed
  qed
  finally show ?thesis using returns by blast
qed

theorem main_zero_scale_witness:
  "strip ''5'' \<noteq> []
    \<and> py_int (strip ''5'') = Inr 5
    \<and> (if strip ''10'' = [] then Inr 10000 else py_int (strip ''10'')) = Inr 10
    \<and> (10::int) \<noteq> 0
    \<and> (5::int) div 10 = 0
    \<and> \<not> float_overflows (5 * 512)
    \<and> parse_blocks (join_newline [''0 ok'', ''2 ok'', ''x'', ''3'']) = Inr [0, 2, 3]
    \<and> main [''5'', ''10'', ''0 ok'', ''2 ok'', ''x'', ''3'']
        = FilesWritten [(0, -1), (0, -1), (0, -1), (0, -1), (0, -1), (0, -1), (0, -1)]
            [''1'', ''4-9'']"
proof -
  have h1: "strip ''5'' \<noteq> []" by code_simp
  have h2: "py_int (strip ''5'') = Inr 5" by code_simp
  have h3: "(if strip ''10'' = [] then Inr 10000 else py_int (strip ''10'')) = Inr 10"
    by code_simp
  have h4: "(10::int) \<noteq> 0" by simp
  have h5: "(5::int) div 10 = 0" by simp
  have h6: "\<not> float_overflows (5 * 512)" by (simp add: float_overflows_def)
  have p: "parse_blocks (join_newline [''0 ok'', ''2 ok'', ''x'', ''3'']) = Inr [0, 2, 3]"
    by code_simp
  have i: "invert_blocks [0, 2, 3] 10 = [1, 4, 5, 6, 7, 8, 9]" by code_simp
  have c: "create_ranges [1, 4, 5, 6, 7, 8, 9] = Inr [''1'', ''4-9'']" by code_simp
  from main_zero_scale [OF h1 h2 h3 h4 h5, of "[''0 ok'', ''2 ok'', ''x'', ''3'']"]
  have "main [''5'', ''10'', ''0 ok'', ''2 ok'', ''x'', ''3'']
        = FilesWritten [(0, -1), (0, -1), (0, -1), (0, -1), (0, -1), (0, -1), (0, -1)]
            [''1'', ''4-9'']"
    unfolding p using h6 by (simp add: i c)
  with h1 h2 h3 h4 h5 h6 p show ?thesis by (simp only: simp_thms)
qed

end
